theory Spec2Isabelle
  imports Complex_Main
begin

section \<open>Voice feature extraction (src/lib/dsp.ts): the model\<close>

text \<open>
  The class \<open>DSPProcessor\<close> turns a decoded mono sample buffer into a record of acoustic
  measurements. Its methods are modelled as functions over lists of real numbers.

  Numbers. A JavaScript \<open>number\<close> is an IEEE-754 double. The samples come from a
  \<open>Float32Array\<close>, so they are finite, and sums and products of finitely many of them do
  not leave the finite doubles. Such finite values are modelled by \<open>real\<close>, with exact
  arithmetic: rounding is not modelled. The special values arise in this program only from
  a division by zero and from \<open>Math.sqrt\<close>, \<open>Math.log10\<close> on what such a division
  returns; results that can be special have the type \<open>jsnum\<close>, and the operations on it
  follow IEEE-754. Every zero divisor of this program is a length or a sum of non-negative
  terms, hence \<open>+0\<close>: the sign of zero is not modelled.

  The sample rate is \<open>AudioContext.sampleRate\<close>, a positive finite number; the results
  below assume \<open>0 < sampleRate\<close>, and the model's \<open>\<lfloor>sampleRate / c\<rfloor>\<close> are read as
  natural numbers on that ground.
\<close>

subsection \<open>JavaScript numbers that may be special\<close>

datatype jsnum = Fin real | PInf | NInf | NaN

text \<open>\<open>a / b\<close> on finite operands.\<close>

definition jsdiv :: "real \<Rightarrow> real \<Rightarrow> jsnum" where
  "jsdiv a b =
     (if b \<noteq> 0 then Fin (a / b)
      else if a = 0 then NaN
      else if 0 < a then PInf else NInf)"

text \<open>\<open>x * c\<close> for a finite \<open>c\<close>.\<close>

fun js_mul :: "jsnum \<Rightarrow> real \<Rightarrow> jsnum" where
  "js_mul (Fin a) c = Fin (a * c)"
| "js_mul NaN c = NaN"
| "js_mul PInf c = (if 0 < c then PInf else if c < 0 then NInf else NaN)"
| "js_mul NInf c = (if 0 < c then NInf else if c < 0 then PInf else NaN)"

text \<open>\<open>x < y\<close>: false as soon as one side is \<open>NaN\<close>.\<close>

fun js_lt :: "jsnum \<Rightarrow> jsnum \<Rightarrow> bool" where
  "js_lt (Fin a) (Fin b) = (a < b)"
| "js_lt NaN y = False"
| "js_lt x NaN = False"
| "js_lt NInf NInf = False"
| "js_lt NInf y = True"
| "js_lt x PInf = (x \<noteq> PInf)"
| "js_lt PInf y = False"
| "js_lt x NInf = False"

text \<open>\<open>Math.round\<close> (halves go up), \<open>Math.sqrt\<close>, \<open>Math.log10\<close>, \<open>Math.min\<close>, \<open>Math.max\<close>.\<close>

fun js_round :: "jsnum \<Rightarrow> jsnum" where
  "js_round (Fin a) = Fin (of_int \<lfloor>a + 1 / 2\<rfloor>)"
| "js_round x = x"

fun js_sqrt :: "jsnum \<Rightarrow> jsnum" where
  "js_sqrt (Fin a) = (if 0 \<le> a then Fin (sqrt a) else NaN)"
| "js_sqrt PInf = PInf"
| "js_sqrt x = NaN"

fun js_log10 :: "jsnum \<Rightarrow> jsnum" where
  "js_log10 (Fin a) = (if 0 < a then Fin (log 10 a) else if a = 0 then NInf else NaN)"
| "js_log10 PInf = PInf"
| "js_log10 x = NaN"

definition js_min :: "jsnum \<Rightarrow> jsnum \<Rightarrow> jsnum" where
  "js_min x y = (if x = NaN \<or> y = NaN then NaN else if js_lt y x then y else x)"

definition js_max :: "jsnum \<Rightarrow> jsnum \<Rightarrow> jsnum" where
  "js_max x y = (if x = NaN \<or> y = NaN then NaN else if js_lt x y then y else x)"

subsection \<open>Slices\<close>

text \<open>\<open>xs.slice(a, b)\<close> for \<open>0 \<le> a \<le> b\<close>; both ends are clamped to the length.\<close>

definition slice :: "'a list \<Rightarrow> nat \<Rightarrow> nat \<Rightarrow> 'a list" where
  "slice xs a b = take (b - a) (drop a xs)"

subsection \<open>Pitch: autocorrelation per frame, median over frames\<close>

text \<open>The inner loop of \<open>autocorrelationPitch\<close>: \<open>correlation += frame[i] * frame[i + lag]\<close>.\<close>

definition correlation :: "real list \<Rightarrow> nat \<Rightarrow> real" where
  "correlation frame lag =
     foldl (\<lambda>c i. c + frame ! i * frame ! (i + lag)) 0 [0 ..< length frame - lag]"

text \<open>
  The peak loop: the index of the first strictly largest correlation; \<open>maxCorr\<close> starts at
  \<open>-Infinity\<close>. The arguments are the correlations not yet visited, the loop index,
  \<open>maxCorr\<close> and \<open>maxLagIndex\<close>.
\<close>

fun findPeak :: "real list \<Rightarrow> nat \<Rightarrow> jsnum \<Rightarrow> nat \<Rightarrow> nat" where
  "findPeak [] i maxCorr maxLagIndex = maxLagIndex"
| "findPeak (c # cs) i maxCorr maxLagIndex =
     (if js_lt maxCorr (Fin c) then findPeak cs (i + 1) (Fin c) i
      else findPeak cs (i + 1) maxCorr maxLagIndex)"

definition autocorrelationPitch :: "real \<Rightarrow> real list \<Rightarrow> jsnum" where
  "autocorrelationPitch sampleRate frame =
     (let minLag = nat \<lfloor>sampleRate / 500\<rfloor>;
          maxLag = nat \<lfloor>sampleRate / 50\<rfloor>;
          correlations = map (correlation frame) [minLag ..< min maxLag (length frame)];
          maxLagIndex = findPeak correlations 0 NInf 0;
          bestLag = minLag + maxLagIndex
      in jsdiv sampleRate (real bestLag))"

text \<open>
  The framing loop of \<open>calculatePitch\<close> (lines 48-54), which \<open>calculatePitchVariation\<close>
  repeats word for word (lines 96-102). The test \<open>pitch > 50 && pitch < 500\<close> is false
  on \<open>NaN\<close> and on both infinities, so what is pushed is finite.
\<close>

function pitchFrames :: "real \<Rightarrow> real list \<Rightarrow> nat \<Rightarrow> real list \<Rightarrow> real list" where
  "pitchFrames sampleRate samples i pitches =
     (if i + 2048 < length samples
      then pitchFrames sampleRate samples (i + 512)
             (case autocorrelationPitch sampleRate (slice samples i (i + 2048)) of
                Fin p \<Rightarrow> if 50 < p \<and> p < 500 then pitches @ [p] else pitches
              | _ \<Rightarrow> pitches)
      else pitches)"
  by pat_completeness auto
termination
  by (relation "measure (\<lambda>(sampleRate, samples, i, pitches). length samples - i)") auto

declare pitchFrames.simps [simp del]

text \<open>\<open>pitches.sort((a, b) => a - b)\<close> sorts finite numbers in ascending order.\<close>

definition calculatePitch :: "real \<Rightarrow> real list \<Rightarrow> real" where
  "calculatePitch sampleRate samples =
     (let pitches = pitchFrames sampleRate samples 0 []
      in if length pitches = 0 then 150
         else sort pitches ! (length pitches div 2))"

definition calculatePitchVariation :: "real \<Rightarrow> real list \<Rightarrow> real" where
  "calculatePitchVariation sampleRate samples =
     (let pitches = pitchFrames sampleRate samples 0 []
      in if length pitches < 2 then 10
         else let mean = foldl (+) 0 pitches / real (length pitches);
                  variance = foldl (\<lambda>sum p. sum + (p - mean) ^ 2) 0 pitches
                               / real (length pitches)
              in sqrt variance)"

subsection \<open>Jitter\<close>

text \<open>
  The zero-crossing loop of \<open>calculateJitter\<close> (lines 117-128). \<open>lastCrossing\<close> is
  updated at every rising crossing, also when the period was not pushed.
\<close>

function jitterScan :: "jsnum \<Rightarrow> real list \<Rightarrow> nat \<Rightarrow> nat \<Rightarrow> real list \<Rightarrow> real list" where
  "jitterScan periodSamples samples i lastCrossing periods =
     (if i < length samples
      then if samples ! (i - 1) \<le> 0 \<and> samples ! i > 0
           then jitterScan periodSamples samples (i + 1) i
                  (if lastCrossing > 0
                   then let period = real i - real lastCrossing
                        in if js_lt (js_mul periodSamples 0.5) (Fin period)
                              \<and> js_lt (Fin period) (js_mul periodSamples 2)
                           then periods @ [period] else periods
                   else periods)
           else jitterScan periodSamples samples (i + 1) lastCrossing periods
      else periods)"
  by pat_completeness auto
termination
  by (relation "measure (\<lambda>(periodSamples, samples, i, lastCrossing, periods). length samples - i)")
     auto

declare jitterScan.simps [simp del]

text \<open>
  \<open>totalDiff += Math.abs(xs[i] - xs[i - 1])\<close> for \<open>i = 1, ..., xs.length - 1\<close>: the loop
  of lines 133-136, and again of lines 162-165.
\<close>

definition totalDiff :: "real list \<Rightarrow> real" where
  "totalDiff xs = foldl (\<lambda>t i. t + \<bar>xs ! i - xs ! (i - 1)\<bar>) 0 [1 ..< length xs]"

definition calculateJitter :: "real \<Rightarrow> real list \<Rightarrow> real \<Rightarrow> jsnum" where
  "calculateJitter sampleRate samples fundamentalFreq =
     (let periodSamples = js_round (jsdiv sampleRate fundamentalFreq);
          periods = jitterScan periodSamples samples 1 0 []
      in if length periods < 2 then Fin 0.5
         else let avgDiff = totalDiff periods / (real (length periods) - 1);
                  avgPeriod = foldl (+) 0 periods / real (length periods)
              in js_mul (jsdiv avgDiff avgPeriod) 100)"

subsection \<open>Shimmer\<close>

text \<open>The peak of one frame: \<open>if (abs > max) max = abs\<close>, from \<open>max = 0\<close>.\<close>

definition framePeak :: "real list \<Rightarrow> real" where
  "framePeak frame = foldl (\<lambda>m x. if \<bar>x\<bar> > m then \<bar>x\<bar> else m) 0 frame"

function shimmerFrames :: "real list \<Rightarrow> nat \<Rightarrow> real list \<Rightarrow> real list" where
  "shimmerFrames samples i amplitudes =
     (if i + 512 < length samples
      then shimmerFrames samples (i + 512)
             (amplitudes @ [framePeak (slice samples i (i + 512))])
      else amplitudes)"
  by pat_completeness auto
termination
  by (relation "measure (\<lambda>(samples, i, amplitudes). length samples - i)") auto

declare shimmerFrames.simps [simp del]

definition calculateShimmer :: "real list \<Rightarrow> jsnum" where
  "calculateShimmer samples =
     (let amplitudes = shimmerFrames samples 0 []
      in if length amplitudes < 2 then Fin 3
         else let avgDiff = totalDiff amplitudes / (real (length amplitudes) - 1);
                  avgAmp = foldl (+) 0 amplitudes / real (length amplitudes)
              in js_mul (jsdiv avgDiff avgAmp) 100)"

subsection \<open>Harmonics-to-noise ratio\<close>

definition signalPower :: "real list \<Rightarrow> real" where
  "signalPower frame = foldl (\<lambda>s x. s + x * x) 0 frame / real (length frame)"

definition noisePower :: "real list \<Rightarrow> real" where
  "noisePower frame =
     foldl (\<lambda>s j. s + (frame ! j - frame ! (j - 1)) * (frame ! j - frame ! (j - 1))) 0
       [1 ..< length frame] / real (length frame)"

text \<open>The frame loop (lines 179-200); the pair is \<open>(totalSignalPower, totalNoisePower)\<close>.\<close>

function hnrFrames :: "real list \<Rightarrow> nat \<Rightarrow> real \<times> real \<Rightarrow> real \<times> real" where
  "hnrFrames samples i totals =
     (if i + 2048 < length samples
      then let frame = slice samples i (i + 2048)
           in hnrFrames samples (i + 2048)
                (fst totals + signalPower frame, snd totals + noisePower frame * 0.1)
      else totals)"
  by pat_completeness auto
termination
  by (relation "measure (\<lambda>(samples, i, totals). length samples - i)") auto

declare hnrFrames.simps [simp del]

definition totalSignalPower :: "real list \<Rightarrow> real" where
  "totalSignalPower samples = fst (hnrFrames samples 0 (0, 0))"

definition totalNoisePower :: "real list \<Rightarrow> real" where
  "totalNoisePower samples = snd (hnrFrames samples 0 (0, 0))"

definition calculateHNR :: "real list \<Rightarrow> jsnum" where
  "calculateHNR samples =
     (if totalNoisePower samples = 0 then Fin 25
      else let hnr = js_mul (js_log10 (jsdiv (totalSignalPower samples)
                                         (totalNoisePower samples))) 10
           in js_max (Fin 0) (js_min (Fin 40) hnr))"

subsection \<open>Amplitude\<close>

definition calculateAmplitude :: "real list \<Rightarrow> jsnum" where
  "calculateAmplitude samples =
     js_sqrt (jsdiv (foldl (\<lambda>sum x. sum + x * x) 0 samples) (real (length samples)))"

subsection \<open>Formants\<close>

record bin =
  re :: real
  im :: real

text \<open>The direct transform of lines 262-278.\<close>

definition fft :: "real list \<Rightarrow> bin list" where
  "fft input =
     (let n = length input
      in map (\<lambda>k.
           \<lparr> re = foldl (\<lambda>r t. r + input ! t * cos (2 * pi * real t * real k / real n)) 0
                    [0 ..< n],
             im = foldl (\<lambda>r t. r - input ! t * sin (2 * pi * real t * real k / real n)) 0
                    [0 ..< n] \<rparr>) [0 ..< n])"

text \<open>
  The peak loop (lines 241-251) with its state \<open>prevMag\<close>, \<open>rising\<close>, \<open>formants\<close>; the
  \<open>break\<close> returns at once. \<open>endBin\<close> may be a half-integer (\<open>magnitudes.length / 2\<close>).
\<close>

function peakScan ::
  "real list \<Rightarrow> real \<Rightarrow> real \<Rightarrow> nat \<Rightarrow> real \<Rightarrow> bool \<Rightarrow> real list \<Rightarrow> real list" where
  "peakScan magnitudes binWidth endBin i prevMag rising formants =
     (if real i < endBin
      then if magnitudes ! i > prevMag
           then peakScan magnitudes binWidth endBin (i + 1) (magnitudes ! i) True formants
           else if rising \<and> magnitudes ! i < prevMag
           then if length (formants @ [(real i - 1) * binWidth]) \<ge> 4
                then formants @ [(real i - 1) * binWidth]
                else peakScan magnitudes binWidth endBin (i + 1) (magnitudes ! i) False
                       (formants @ [(real i - 1) * binWidth])
           else peakScan magnitudes binWidth endBin (i + 1) (magnitudes ! i) rising formants
      else formants)"
  by pat_completeness auto
termination
  by (relation "measure (\<lambda>(magnitudes, binWidth, endBin, i, prevMag, rising, formants).
                  nat \<lceil>endBin\<rceil> - i)")
     (auto, linarith+)

declare peakScan.simps [simp del]

text \<open>Lines 222-251: the peaks found in the first frame, before any padding.\<close>

definition detectPeaks :: "real \<Rightarrow> real list \<Rightarrow> real list" where
  "detectPeaks sampleRate samples =
     (let frame = slice samples 0 (min 2048 (length samples));
          magnitudes = map (\<lambda>c. sqrt (re c * re c + im c * im c)) (fft frame);
          binWidth = sampleRate / 2048;
          startBin = nat \<lfloor>200 / binWidth\<rfloor>;
          endBin = min (of_int \<lfloor>4000 / binWidth\<rfloor>) (real (length magnitudes) / 2)
      in peakScan magnitudes binWidth endBin startBin 0 False [])"

text \<open>\<open>while (formants.length < 3) formants.push(500 + formants.length * 1000)\<close>.\<close>

function padFormants :: "real list \<Rightarrow> real list" where
  "padFormants formants =
     (if length formants < 3
      then padFormants (formants @ [500 + real (length formants) * 1000])
      else formants)"
  by pat_completeness auto
termination
  by (relation "measure (\<lambda>formants. 3 - length formants)") auto

declare padFormants.simps [simp del]

definition calculateFormants :: "real \<Rightarrow> real list \<Rightarrow> real list" where
  "calculateFormants sampleRate samples =
     slice (padFormants (detectPeaks sampleRate samples)) 0 4"

subsection \<open>The data\<close>

text \<open>
  \<open>VoiceFeatures\<close> (types): every scalar field is a \<open>number\<close>. The decoded \<open>AudioBuffer\<close>
  is read through \<open>getChannelData(0)\<close> and \<open>duration\<close> only; its field \<open>duration\<close> is
  named \<open>bufferDuration\<close> here, apart from the feature of the same name. Of the
  processor's fields the methods read \<open>sampleRate\<close> only (\<open>audioContext\<close> serves the
  decoder, which is outside the model: \<open>extractFeatures\<close> starts from the decoded buffer).
\<close>

record VoiceFeatures =
  pitch :: jsnum
  pitchVariation :: jsnum
  jitter :: jsnum
  shimmer :: jsnum
  hnr :: jsnum
  duration :: jsnum
  amplitude :: jsnum
  formants :: "real list"

record AudioBuffer =
  channelData :: "real list"
  bufferDuration :: real

record DSPProcessor =
  sampleRate :: real

subsection \<open>Orchestration\<close>

text \<open>
  \<open>extractFeatures\<close> after the decoder: it is given the processor and the decoded buffer
  and returns the feature record together with the processor, whose fields no method
  assigns.
\<close>

definition extractFeatures :: "DSPProcessor \<Rightarrow> AudioBuffer \<Rightarrow> VoiceFeatures \<times> DSPProcessor" where
  "extractFeatures this audioBuffer =
     (let samples = channelData audioBuffer;
          pitch' = calculatePitch (sampleRate this) samples;
          pitchVariation' = calculatePitchVariation (sampleRate this) samples;
          jitter' = calculateJitter (sampleRate this) samples pitch';
          shimmer' = calculateShimmer samples;
          hnr' = calculateHNR samples;
          amplitude' = calculateAmplitude samples;
          formants' = calculateFormants (sampleRate this) samples;
          duration' = bufferDuration audioBuffer
      in (\<lparr> pitch = Fin pitch',
            pitchVariation = Fin pitchVariation',
            jitter = jitter',
            shimmer = shimmer',
            hnr = hnr',
            duration = Fin duration',
            amplitude = amplitude',
            formants = formants' \<rparr>, this))"

section \<open>Reference definitions\<close>

text \<open>
  What the methods are compared with: the frames of a buffer as a list, the pitch
  estimates kept by a filter, the zero crossings as a list of indices. None of these is
  part of the program.
\<close>

subsection \<open>Frames\<close>

text \<open>
  The frames of length \<open>frameSize\<close> taken every \<open>hopSize\<close> samples, as long as a frame
  starts strictly more than \<open>frameSize\<close> samples before the end of the buffer.
\<close>

function frames :: "nat \<Rightarrow> nat \<Rightarrow> 'a list \<Rightarrow> 'a list list" where
  "frames frameSize hopSize xs =
     (if frameSize < length xs \<and> 0 < hopSize
      then take frameSize xs # frames frameSize hopSize (drop hopSize xs)
      else [])"
  by pat_completeness auto
termination
  by (relation "measure (\<lambda>(frameSize, hopSize, xs). length xs)") auto

declare frames.simps [simp del]

text \<open>A silent buffer: \<open>n\<close> samples, all zero.\<close>

definition silence :: "nat \<Rightarrow> real list" where
  "silence n = replicate n 0"

subsection \<open>Pitch estimates and the ones retained\<close>

definition frameEstimates :: "real \<Rightarrow> real list \<Rightarrow> jsnum list" where
  "frameEstimates rate samples = map (autocorrelationPitch rate) (frames 2048 512 samples)"

text \<open>The finite estimates strictly between 50 and 500 Hz.\<close>

definition retainedStrict :: "jsnum list \<Rightarrow> real list" where
  "retainedStrict es = [p. Fin p \<leftarrow> es, 50 < p \<and> p < 500]"

text \<open>The finite estimates in the closed interval from 50 to 500 Hz.\<close>

definition retainedClosed :: "jsnum list \<Rightarrow> real list" where
  "retainedClosed es = [p. Fin p \<leftarrow> es, 50 \<le> p \<and> p \<le> 500]"

text \<open>
  The middle element in ascending order, at index \<open>\<lfloor>n / 2\<rfloor>\<close>: the median of an odd
  number of values, the upper of the two middle values of an even number.
\<close>

definition middle :: "real list \<Rightarrow> real" where
  "middle xs = sort xs ! (length xs div 2)"

text \<open>
  The pitch as the specification words it: the median of the estimates that are not
  outside \<open>[50, 500]\<close>, or 150.
\<close>

definition claimedPitch :: "real \<Rightarrow> real list \<Rightarrow> real" where
  "claimedPitch rate samples =
     (let kept = retainedClosed (frameEstimates rate samples)
      in if kept = [] then 150 else middle kept)"

subsection \<open>Zero crossings and cycle-to-cycle perturbation\<close>

text \<open>
  A rising zero crossing at index \<open>i\<close>: the sample before is \<open>\<le> 0\<close> and this one is
  \<open>> 0\<close>. The candidate periods are the distances between consecutive crossings.
\<close>

definition risingAt :: "real list \<Rightarrow> nat \<Rightarrow> bool" where
  "risingAt samples i = (samples ! (i - 1) \<le> 0 \<and> samples ! i > 0)"

definition crossingsFrom :: "real list \<Rightarrow> nat \<Rightarrow> nat list" where
  "crossingsFrom samples i = filter (risingAt samples) [i ..< length samples]"

definition gaps :: "nat list \<Rightarrow> real list" where
  "gaps cs = map (\<lambda>(a, b). real b - real a) (zip cs (tl cs))"

definition candidatePeriods :: "real list \<Rightarrow> real list" where
  "candidatePeriods samples = gaps (crossingsFrom samples 1)"

text \<open>The candidates strictly between half and twice the expected period.\<close>

definition acceptedStrict :: "real \<Rightarrow> real list \<Rightarrow> real list" where
  "acceptedStrict expected ps = filter (\<lambda>p. expected * 0.5 < p \<and> p < expected * 2) ps"

text \<open>The candidates in the closed interval from half to twice the expected period.\<close>

definition acceptedClosed :: "real \<Rightarrow> real list \<Rightarrow> real list" where
  "acceptedClosed expected ps = filter (\<lambda>p. expected * 0.5 \<le> p \<and> p \<le> expected * 2) ps"

text \<open>
  The mean absolute difference between consecutive values, the mean, and their ratio as a
  percentage, with a default for fewer than two values.
\<close>

definition meanAbsDiff :: "real list \<Rightarrow> real" where
  "meanAbsDiff xs =
     sum_list (map (\<lambda>i. \<bar>xs ! i - xs ! (i - 1)\<bar>) [1 ..< length xs]) / (real (length xs) - 1)"

definition mean :: "real list \<Rightarrow> real" where
  "mean xs = sum_list xs / real (length xs)"

definition perturbation :: "real \<Rightarrow> real list \<Rightarrow> real" where
  "perturbation dflt xs = (if length xs < 2 then dflt else meanAbsDiff xs / mean xs * 100)"

text \<open>
  The jitter as the specification words it: candidates within \<open>[0.5, 2]\<close> times
  \<open>sampleRate / pitch\<close>.
\<close>

definition claimedJitter :: "real \<Rightarrow> real list \<Rightarrow> real \<Rightarrow> real" where
  "claimedJitter rate samples f =
     perturbation 0.5 (acceptedClosed (rate / f) (candidatePeriods samples))"

text \<open>
  A buffer of 22 samples with rising crossings at the indices 1, 11 and 21: two periods
  of 10 samples.
\<close>

definition clicks :: "real list" where
  "clicks = [-1, 1, -1, -1, -1, -1, -1, -1, -1, -1, -1,
                 1, -1, -1, -1, -1, -1, -1, -1, -1, -1, 1]"

section \<open>The pitch tracker\<close>

subsection \<open>The framing loop keeps the estimates that pass the filter\<close>

lemma retainedStrict_simps [simp]:
  "retainedStrict [] = []"
  "retainedStrict (Fin p # es) = (if 50 < p \<and> p < 500 then p # retainedStrict es else retainedStrict es)"
  "retainedStrict (NaN # es) = retainedStrict es"
  "retainedStrict (PInf # es) = retainedStrict es"
  "retainedStrict (NInf # es) = retainedStrict es"
  by (simp_all add: retainedStrict_def)

lemma retainedStrict_bounds: "p \<in> set (retainedStrict es) \<Longrightarrow> 50 < p \<and> p < 500"
  by (auto simp: retainedStrict_def split: jsnum.splits if_splits)

lemma frames_step:
  "frameSize < length xs \<Longrightarrow> 0 < hopSize \<Longrightarrow>
   frames frameSize hopSize xs = take frameSize xs # frames frameSize hopSize (drop hopSize xs)"
  by (subst frames.simps) simp

lemma frames_stop: "\<not> frameSize < length xs \<Longrightarrow> frames frameSize hopSize xs = []"
  by (subst frames.simps) simp

lemma pitchFrames_frames:
  "i \<le> length samples \<Longrightarrow> pitchFrames rate samples i acc =
     acc @ retainedStrict (map (autocorrelationPitch rate) (frames 2048 512 (drop i samples)))"
proof (induction rate samples i acc rule: pitchFrames.induct)
  case (1 rate samples i pitches)
  show ?case
  proof (cases "i + 2048 < length samples")
    case True
    have le: "i + 512 \<le> length samples" using True by simp
    have fr: "frames 2048 512 (drop i samples) =
         take 2048 (drop i samples) # frames 2048 512 (drop (i + 512) samples)"
      using True by (simp add: frames_step add.commute)
    show ?thesis
      using True "1.IH"[OF True le]
      by (subst pitchFrames.simps) (simp add: fr slice_def split: jsnum.splits)
  next
    case False
    then have "frames 2048 512 (drop i samples) = []"
      by (simp add: frames_stop)
    with False show ?thesis
      by (subst pitchFrames.simps) simp
  qed
qed

lemma pitchFrames_retained:
  "pitchFrames rate samples 0 [] = retainedStrict (frameEstimates rate samples)"
  by (simp add: pitchFrames_frames frameEstimates_def)

lemma pitchFrames_short: "length samples \<le> 2048 \<Longrightarrow> pitchFrames rate samples 0 [] = []"
  by (subst pitchFrames.simps) simp

lemma middle_in_set: "xs \<noteq> [] \<Longrightarrow> middle xs \<in> set xs"
proof -
  assume "xs \<noteq> []"
  then have "length xs div 2 < length (sort xs)" by (cases xs) simp_all
  then have "sort xs ! (length xs div 2) \<in> set (sort xs)" by (rule nth_mem)
  then show ?thesis by (simp add: middle_def)
qed

subsection \<open>Silent frames\<close>

lemma foldl_add_zero:
  "(\<And>i. i \<in> set xs \<Longrightarrow> f i = (0::real)) \<Longrightarrow> foldl (\<lambda>c i. c + f i) a xs = a"
  by (induction xs arbitrary: a) simp_all

lemma correlation_silence: "correlation (replicate m 0) lag = 0"
  unfolding correlation_def
  by (rule foldl_add_zero) simp

lemma findPeak_flat: "findPeak (replicate k c) i (Fin c) idx = idx"
  by (induction k arbitrary: i) simp_all

lemma findPeak_zeros: "findPeak (replicate k c) 0 NInf 0 = 0"
  by (cases k) (simp_all add: findPeak_flat)

lemma autocorrelationPitch_silence:
  "autocorrelationPitch rate (replicate m 0) = jsdiv rate (real (nat \<lfloor>rate / 500\<rfloor>))"
proof -
  have "map (correlation (replicate m 0)) ls = replicate (length ls) 0" for ls
    by (induction ls) (simp_all add: correlation_silence)
  then show ?thesis
    by (simp add: autocorrelationPitch_def Let_def findPeak_zeros)
qed

lemma nat_floor_le: "0 \<le> x \<Longrightarrow> real (nat \<lfloor>x\<rfloor>) \<le> x"
proof -
  assume "0 \<le> x"
  then have "0 \<le> \<lfloor>x\<rfloor>" by simp
  then have "real (nat \<lfloor>x\<rfloor>) = of_int \<lfloor>x\<rfloor>" by simp
  then show ?thesis by simp
qed

lemma silence_estimate_rejected:
  assumes "0 < rate"
  shows "retainedStrict [jsdiv rate (real (nat \<lfloor>rate / 500\<rfloor>))] = []"
proof (cases "nat \<lfloor>rate / 500\<rfloor> = 0")
  case True
  then show ?thesis using assms by (simp add: jsdiv_def)
next
  case False
  define k where "k = nat \<lfloor>rate / 500\<rfloor>"
  have kpos: "0 < real k" using False by (simp add: k_def)
  have "real k \<le> rate / 500"
    unfolding k_def using assms by (intro nat_floor_le) simp
  then have "500 * real k \<le> rate" by simp
  then have "500 \<le> rate / real k" using kpos by (simp add: pos_le_divide_eq)
  then show ?thesis using kpos by (simp add: jsdiv_def k_def[symmetric])
qed

lemma frames_members:
  "fr \<in> set (frames frameSize hopSize xs) \<Longrightarrow> length fr = frameSize \<and> set fr \<subseteq> set xs"
proof (induction frameSize hopSize xs rule: frames.induct)
  case (1 frameSize hopSize xs)
  show ?case
  proof (cases "frameSize < length xs \<and> 0 < hopSize")
    case True
    then have "fr = take frameSize xs \<or> fr \<in> set (frames frameSize hopSize (drop hopSize xs))"
      using "1.prems" by (simp add: frames_step)
    then show ?thesis
    proof
      assume "fr = take frameSize xs"
      then show ?thesis using True by (auto dest: in_set_takeD)
    next
      assume "fr \<in> set (frames frameSize hopSize (drop hopSize xs))"
      from "1.IH"[OF True this] show ?thesis by (auto dest: in_set_dropD)
    qed
  next
    case False
    then have "frames frameSize hopSize xs = []" by (subst frames.simps) simp
    then show ?thesis using "1.prems" by simp
  qed
qed

lemma frames_silence:
  "fr \<in> set (frames frameSize hopSize (replicate n (0::real))) \<Longrightarrow> fr = replicate frameSize 0"
proof -
  assume "fr \<in> set (frames frameSize hopSize (replicate n (0::real)))"
  from frames_members[OF this] have "length fr = frameSize" "\<forall>y\<in>set fr. y = 0" by auto
  then show ?thesis by (metis replicate_length_same)
qed

lemma retainedStrict_all_rejected:
  "(\<And>e. e \<in> set es \<Longrightarrow> retainedStrict [e] = []) \<Longrightarrow> retainedStrict es = []"
proof (induction es)
  case Nil
  then show ?case by simp
next
  case (Cons e es)
  have "retainedStrict [e] = []" using Cons.prems by simp
  moreover have "retainedStrict es = []" using Cons by simp
  ultimately show ?case by (cases e) (simp_all split: if_splits)
qed

lemma length_silence [simp]: "length (silence n) = n"
  by (simp add: silence_def)

lemma pitchFrames_silence:
  assumes "0 < rate"
  shows "pitchFrames rate (silence n) 0 [] = []"
proof -
  have "retainedStrict (frameEstimates rate (replicate n 0)) = []"
  proof (rule retainedStrict_all_rejected)
    fix e assume "e \<in> set (frameEstimates rate (replicate n 0))"
    then obtain fr where "fr \<in> set (frames 2048 512 (replicate n (0::real)))"
        and e: "e = autocorrelationPitch rate fr"
      by (auto simp: frameEstimates_def)
    then have "fr = replicate 2048 0" by (simp add: frames_silence)
    then show "retainedStrict [e] = []"
      using e silence_estimate_rejected[OF assms] by (simp add: autocorrelationPitch_silence)
  qed
  then show ?thesis by (simp add: pitchFrames_retained silence_def)
qed

lemma frames_one: "frames 2048 512 (silence 2049) = [replicate 2048 0]"
proof -
  have "frames 2048 512 (replicate (2048 + 1) (0::real))
        = take 2048 (replicate (2048 + 1) 0) # frames 2048 512 (drop 512 (replicate (2048 + 1) 0))"
    by (rule frames_step) simp_all
  also have "take 2048 (replicate (2048 + 1) (0::real)) = replicate 2048 0"
    by (simp only: take_replicate) simp
  also have "frames 2048 512 (drop 512 (replicate (2048 + 1) (0::real))) = []"
    by (rule frames_stop) simp
  finally show ?thesis by (simp add: silence_def)
qed

subsection \<open>Claims about the pitch\<close>

text \<open>
  C9. For every sample buffer, the pitch returned by \<open>calculatePitch\<close> is either the
  default 150 or lies strictly between 50 and 500 Hz: it is one of the retained
  estimates, and each of them passed the strict test.
\<close>

theorem calculatePitch_range:
  "0 < rate \<Longrightarrow> calculatePitch rate samples = 150
     \<or> (50 < calculatePitch rate samples \<and> calculatePitch rate samples < 500)"
proof -
  let ?ps = "pitchFrames rate samples 0 []"
  show ?thesis
  proof (cases "?ps = []")
    case True
    then show ?thesis by (simp add: calculatePitch_def)
  next
    case False
    then have "middle ?ps \<in> set ?ps" by (rule middle_in_set)
    then have "50 < middle ?ps \<and> middle ?ps < 500"
      by (simp add: pitchFrames_retained retainedStrict_bounds)
    then show ?thesis using False by (simp add: calculatePitch_def middle_def Let_def)
  qed
qed

text \<open>C9 at 44100 Hz on a buffer of three samples.\<close>

theorem calculatePitch_range_witness:
  "0 < (44100::real) \<and> (calculatePitch 44100 [0.5, -0.5, 0.25] = 150
     \<or> (50 < calculatePitch 44100 [0.5, -0.5, 0.25]
          \<and> calculatePitch 44100 [0.5, -0.5, 0.25] < 500))"
  using calculatePitch_range[of 44100 "[0.5, -0.5, 0.25]"] by simp

text \<open>
  C10. A buffer of at most 2048 samples, a buffer of exactly one frame included, gives
  no frame (the loop bound \<open>i + frameSize < samples.length\<close> is strict), hence the
  pitch 150 and the pitch variation 10.
\<close>

theorem short_buffer_defaults:
  "0 < rate \<Longrightarrow> length samples \<le> 2048 \<Longrightarrow>
     calculatePitch rate samples = 150 \<and> calculatePitchVariation rate samples = 10"
  by (simp add: calculatePitch_def calculatePitchVariation_def pitchFrames_short)

text \<open>C10 at 44100 Hz on a silent buffer of exactly 2048 samples.\<close>

theorem short_buffer_defaults_witness:
  "0 < (44100::real) \<and> length (silence 2048) \<le> 2048 \<and>
     calculatePitch 44100 (silence 2048) = 150 \<and>
     calculatePitchVariation 44100 (silence 2048) = 10"
  using short_buffer_defaults[of 44100 "silence 2048"] by simp

text \<open>
  C5, as the code has it. The pitch is the middle element (index \<open>\<lfloor>n / 2\<rfloor>\<close> in
  ascending order) of the per-frame estimates that are strictly between 50 and 500 Hz, or
  150 when there is none; there is none when the buffer has at most 2048 samples.
\<close>

theorem calculatePitch_middle_of_retained:
  "0 < rate \<Longrightarrow>
   calculatePitch rate samples =
     (let kept = retainedStrict (frameEstimates rate samples)
      in if kept = [] then 150 else middle kept)
   \<and> (length samples \<le> 2048 \<longrightarrow> calculatePitch rate samples = 150)"
  by (simp add: calculatePitch_def pitchFrames_retained[symmetric] middle_def Let_def
        pitchFrames_short)

text \<open>C5 at 48000 Hz on a silent buffer of 100 samples.\<close>

theorem calculatePitch_middle_of_retained_witness:
  "0 < (48000::real) \<and> length (silence 100) \<le> 2048 \<and>
   calculatePitch 48000 (silence 100) =
     (let kept = retainedStrict (frameEstimates 48000 (silence 100))
      in if kept = [] then 150 else middle kept)
   \<and> calculatePitch 48000 (silence 100) = 150"
  using calculatePitch_middle_of_retained[of 48000 "silence 100"] by simp

text \<open>
  C5, as it is stated, fails at 48000 Hz on 2049 silent samples. The one frame has only
  zero correlations, the first lag \<open>96\<close> wins, and the estimate is \<open>48000 / 96 = 500\<close>:
  not outside \<open>[50, 500]\<close>, yet dropped by \<open>pitch < 500\<close>. The code returns 150, the
  statement asks for 500.
\<close>

theorem claimedPitch_counterexample:
  "calculatePitch 48000 (silence 2049) = 150 \<and> claimedPitch 48000 (silence 2049) = 500
   \<and> calculatePitch 48000 (silence 2049) \<noteq> claimedPitch 48000 (silence 2049)"
proof -
  have code: "calculatePitch 48000 (silence 2049) = 150"
    by (simp add: calculatePitch_def pitchFrames_silence)
  have "frameEstimates 48000 (silence 2049) = [Fin 500]"
    by (simp add: frameEstimates_def frames_one autocorrelationPitch_silence jsdiv_def)
  then have "claimedPitch 48000 (silence 2049) = 500"
    by (simp add: claimedPitch_def retainedClosed_def middle_def)
  with code show ?thesis by simp
qed

section \<open>The jitter estimator\<close>

lemma foldl_add_sum_list:
  "foldl (\<lambda>t i. t + f i) a xs = a + sum_list (map f xs)" for a :: real
  by (induction xs arbitrary: a) simp_all

lemma foldl_plus_sum_list: "foldl (+) a xs = a + sum_list xs" for a :: real
  by (induction xs arbitrary: a) simp_all

lemma totalDiff_meanAbsDiff: "totalDiff xs / (real (length xs) - 1) = meanAbsDiff xs"
  by (simp add: totalDiff_def meanAbsDiff_def foldl_add_sum_list)

lemma gaps_Cons2: "gaps (a # b # cs) = (real b - real a) # gaps (b # cs)"
  by (simp add: gaps_def)

lemma gaps_single: "gaps [a] = []"
  by (simp add: gaps_def)

lemma crossingsFrom_step:
  "i < length samples \<Longrightarrow>
   crossingsFrom samples i =
     (if risingAt samples i then i # crossingsFrom samples (i + 1) else crossingsFrom samples (i + 1))"
  by (simp add: crossingsFrom_def upt_conv_Cons)

lemma crossingsFrom_end: "\<not> i < length samples \<Longrightarrow> crossingsFrom samples i = []"
  by (simp add: crossingsFrom_def)

lemma jitterScan_unfold:
  "jitterScan periodSamples samples i lastCrossing periods =
     (if i < length samples
      then if risingAt samples i
           then jitterScan periodSamples samples (i + 1) i
                  (if lastCrossing > 0
                   then let period = real i - real lastCrossing
                        in if js_lt (js_mul periodSamples 0.5) (Fin period)
                              \<and> js_lt (Fin period) (js_mul periodSamples 2)
                           then periods @ [period] else periods
                   else periods)
           else jitterScan periodSamples samples (i + 1) lastCrossing periods
      else periods)"
  unfolding risingAt_def by (rule jitterScan.simps)

lemma jitterScan_gaps:
  "0 < i \<Longrightarrow> jitterScan (Fin r) samples i lastCrossing acc =
     acc @ acceptedStrict r
             (gaps ((if lastCrossing > 0 then [lastCrossing] else []) @ crossingsFrom samples i))"
proof (induction "Fin r" samples i lastCrossing acc rule: jitterScan.induct)
  case (1 samples i lastCrossing periods)
  have ipos: "0 < i" by fact
  show ?case
  proof (cases "i < length samples")
    case False
    then show ?thesis
      by (subst jitterScan.simps) (simp add: crossingsFrom_end gaps_def acceptedStrict_def)
  next
    case True
    note inb = True
    show ?thesis
    proof (cases "risingAt samples i")
      case True
      then have cr: "samples ! (i - 1) \<le> 0 \<and> samples ! i > 0" by (simp add: risingAt_def)
      have step: "crossingsFrom samples i = i # crossingsFrom samples (i + 1)"
        using inb True by (simp add: crossingsFrom_step)
      show ?thesis
        using inb cr ipos "1.hyps"(1)[OF inb cr]
        by (subst jitterScan.simps)
           (simp add: step gaps_Cons2 acceptedStrict_def Let_def)
    next
      case False
      then have cr: "\<not> (samples ! (i - 1) \<le> 0 \<and> samples ! i > 0)" by (simp add: risingAt_def)
      have step: "crossingsFrom samples i = crossingsFrom samples (i + 1)"
        using inb False by (simp add: crossingsFrom_step)
      have "jitterScan (Fin r) samples i lastCrossing periods =
            jitterScan (Fin r) samples (i + 1) lastCrossing periods"
        by (subst jitterScan_unfold) (simp add: inb False)
      then show ?thesis
        using "1.hyps"(2)[OF inb cr] by (simp add: step)
    qed
  qed
qed

lemma jitterScan_periods:
  "jitterScan (Fin r) samples 1 0 [] = acceptedStrict r (candidatePeriods samples)"
  unfolding candidatePeriods_def using jitterScan_gaps[of 1 r samples 0 "[]"] by simp

lemma acceptedStrict_pos:
  "0 \<le> r \<Longrightarrow> p \<in> set (acceptedStrict r ps) \<Longrightarrow> 0 < p"
proof -
  assume "0 \<le> r" and "p \<in> set (acceptedStrict r ps)"
  then have "0 \<le> r * 0.5" and "r * 0.5 < p" by (simp_all add: acceptedStrict_def)
  then show ?thesis by linarith
qed

lemma sum_list_pos_real:
  "xs \<noteq> [] \<Longrightarrow> (\<And>x. x \<in> set xs \<Longrightarrow> 0 < x) \<Longrightarrow> 0 < sum_list xs" for xs :: "real list"
proof (induction xs)
  case Nil
  then show ?case by simp
next
  case (Cons x xs)
  have "0 < x" using Cons.prems by simp
  moreover have "0 \<le> sum_list xs"
    using Cons.prems by (intro sum_list_nonneg) (simp add: less_imp_le)
  ultimately show ?case by simp
qed

lemma calculateJitter_accepted:
  assumes "0 < rate" and "0 < f"
  shows "calculateJitter rate samples f =
     Fin (perturbation 0.5 (acceptedStrict (of_int \<lfloor>rate / f + 1 / 2\<rfloor>) (candidatePeriods samples)))"
proof -
  define r :: real where "r = of_int \<lfloor>rate / f + 1 / 2\<rfloor>"
  define ps where "ps = acceptedStrict r (candidatePeriods samples)"
  have "0 < rate / f" using assms by simp
  then have "0 \<le> \<lfloor>rate / f + 1 / 2\<rfloor>" by simp
  then have r0: "0 \<le> r" by (simp add: r_def)
  have ps: "js_round (jsdiv rate f) = Fin r"
    using assms by (simp add: jsdiv_def r_def)
  have scan: "jitterScan (js_round (jsdiv rate f)) samples 1 0 [] = ps"
    unfolding ps ps_def by (rule jitterScan_periods)
  show ?thesis
  proof (cases "length ps < 2")
    case True
    then show ?thesis
      unfolding calculateJitter_def Let_def scan
      by (simp add: perturbation_def ps_def r_def)
  next
    case False
    then have ne: "ps \<noteq> []" by auto
    have "0 < sum_list ps"
      using ne r0 by (intro sum_list_pos_real) (auto simp: ps_def dest: acceptedStrict_pos)
    then have mpos: "0 < mean ps" using ne by (simp add: mean_def)
    have avg: "foldl (+) 0 ps / real (length ps) = mean ps"
      by (simp add: mean_def foldl_plus_sum_list)
    show ?thesis
      unfolding calculateJitter_def Let_def scan
      using False mpos
      by (simp add: totalDiff_meanAbsDiff avg jsdiv_def perturbation_def ps_def[symmetric] r_def[symmetric])
  qed
qed

lemma jitterScan_no_crossing:
  "(\<And>j. j < length samples \<Longrightarrow> \<not> samples ! j > 0) \<Longrightarrow>
   jitterScan periodSamples samples i lastCrossing periods = periods"
proof (induction periodSamples samples i lastCrossing periods rule: jitterScan.induct)
  case (1 periodSamples samples i lastCrossing periods)
  show ?case
  proof (cases "i < length samples")
    case True
    then have nr: "\<not> (samples ! (i - 1) \<le> 0 \<and> samples ! i > 0)"
      using "1.prems" by simp
    then have "\<not> risingAt samples i" by (simp add: risingAt_def)
    then have "jitterScan periodSamples samples i lastCrossing periods =
               jitterScan periodSamples samples (i + 1) lastCrossing periods"
      using True by (subst jitterScan_unfold) simp
    then show ?thesis using "1.IH"(2)[OF True nr] "1.prems" by simp
  next
    case False
    then show ?thesis by (subst jitterScan.simps) simp
  qed
qed

lemma calculateJitter_silence: "calculateJitter rate (silence n) f = Fin 0.5"
proof -
  have "jitterScan ps (silence n) 1 0 [] = []" for ps
    by (rule jitterScan_no_crossing) (simp add: silence_def)
  then show ?thesis by (simp add: calculateJitter_def)
qed

lemma clicks_periods: "candidatePeriods clicks = [10, 10]"
  by (simp add: candidatePeriods_def crossingsFrom_def clicks_def risingAt_def upt_rec_numeral
        gaps_def)

text \<open>
  C6, as the code has it. For a positive sample rate and a positive pitch estimate, the
  jitter is the mean absolute difference between consecutive accepted periods divided by
  their mean, times 100, and 0.5 when fewer than two periods are accepted; a candidate is
  accepted when it is strictly between 0.5 and 2 times the rounded expected period
  \<open>Math.round(sampleRate / pitch)\<close>.
\<close>

theorem calculateJitter_strict_rounded:
  "0 < rate \<Longrightarrow> 0 < f \<Longrightarrow>
   calculateJitter rate samples f =
     Fin (perturbation 0.5
            (acceptedStrict (real_of_int (round (rate / f))) (candidatePeriods samples)))"
  by (simp add: calculateJitter_accepted round_def)

text \<open>
  C6 at 8000 Hz with the pitch 500 on \<open>clicks\<close>: the expected period is 16, both
  periods of 10 samples are accepted and the jitter is 0.
\<close>

theorem calculateJitter_strict_rounded_witness:
  "0 < (8000::real) \<and> 0 < (500::real) \<and>
   calculateJitter 8000 clicks 500 =
     Fin (perturbation 0.5
            (acceptedStrict (real_of_int (round (8000 / 500 :: real))) (candidatePeriods clicks)))
   \<and> calculateJitter 8000 clicks 500 = Fin 0"
proof -
  have "round (8000 / 500 :: real) = 16" by (simp add: round_def)
  then show ?thesis
    using calculateJitter_strict_rounded[of 8000 500 clicks]
    by (simp add: clicks_periods acceptedStrict_def perturbation_def meanAbsDiff_def mean_def)
qed

text \<open>
  C6, as it is stated, fails at 8000 Hz with the pitch 400 on \<open>clicks\<close>. The expected
  period is 20 and both periods are exactly half of it: within \<open>[0.5, 2]\<close> times the
  expected period, so the statement gives the jitter 0, but \<open>period > periodSamples * 0.5\<close>
  rejects them and the code returns the default 0.5.
\<close>

theorem claimedJitter_counterexample:
  "calculateJitter 8000 clicks 400 = Fin 0.5 \<and> claimedJitter 8000 clicks 400 = 0
   \<and> calculateJitter 8000 clicks 400 \<noteq> Fin (claimedJitter 8000 clicks 400)"
proof -
  have "\<lfloor>8000 / 400 + 1 / 2 :: real\<rfloor> = 20" by simp
  then have code: "calculateJitter 8000 clicks 400 = Fin 0.5"
    using calculateJitter_accepted[of 8000 400 clicks]
    by (simp add: clicks_periods acceptedStrict_def perturbation_def)
  have "claimedJitter 8000 clicks 400 = 0"
    by (simp add: claimedJitter_def clicks_periods acceptedClosed_def perturbation_def
          meanAbsDiff_def mean_def)
  with code show ?thesis by simp
qed

section \<open>The harmonics-to-noise estimator\<close>

lemma sum_list_all_zero:
  "(\<And>x. x \<in> set xs \<Longrightarrow> f x = (0::real)) \<Longrightarrow> sum_list (map f xs) = 0"
  by (induction xs) simp_all

lemma hnrFrames_frames:
  "i \<le> length samples \<Longrightarrow> hnrFrames samples i totals =
     (fst totals + sum_list (map signalPower (frames 2048 2048 (drop i samples))),
      snd totals + sum_list (map (\<lambda>fr. noisePower fr * 0.1) (frames 2048 2048 (drop i samples))))"
proof (induction samples i totals rule: hnrFrames.induct)
  case (1 samples i totals)
  show ?case
  proof (cases "i + 2048 < length samples")
    case True
    have le: "i + 2048 \<le> length samples" using True by simp
    have fr: "frames 2048 2048 (drop i samples) =
         take 2048 (drop i samples) # frames 2048 2048 (drop (i + 2048) samples)"
      using True by (simp add: frames_step add.commute)
    show ?thesis
      using True "1.IH"[OF True refl le]
      by (subst hnrFrames.simps) (simp add: fr slice_def Let_def)
  next
    case False
    then have "frames 2048 2048 (drop i samples) = []"
      by (simp add: frames_stop)
    with False show ?thesis
      by (subst hnrFrames.simps) simp
  qed
qed

lemma totalSignalPower_sum:
  "totalSignalPower samples = sum_list (map signalPower (frames 2048 2048 samples))"
  by (simp add: totalSignalPower_def hnrFrames_frames)

lemma totalNoisePower_sum:
  "totalNoisePower samples = sum_list (map (\<lambda>fr. noisePower fr * 0.1) (frames 2048 2048 samples))"
  by (simp add: totalNoisePower_def hnrFrames_frames)

lemma signalPower_sum: "signalPower frame = sum_list (map (\<lambda>x. x * x) frame) / real (length frame)"
  by (simp add: signalPower_def foldl_add_sum_list)

lemma noisePower_sum:
  "noisePower frame =
     sum_list (map (\<lambda>j. (frame ! j - frame ! (j - 1)) * (frame ! j - frame ! (j - 1)))
                [1 ..< length frame]) / real (length frame)"
  by (simp add: noisePower_def foldl_add_sum_list)

lemma signalPower_nonneg: "0 \<le> signalPower frame"
  unfolding signalPower_sum by (intro divide_nonneg_nonneg sum_list_nonneg) auto

lemma noisePower_nonneg: "0 \<le> noisePower frame"
  unfolding noisePower_sum by (intro divide_nonneg_nonneg sum_list_nonneg) auto

lemma noisePower_constant:
  assumes "\<And>x. x \<in> set frame \<Longrightarrow> x = c"
  shows "noisePower frame = 0"
proof -
  have "(frame ! j - frame ! (j - 1)) * (frame ! j - frame ! (j - 1)) = 0"
    if "j \<in> set [1 ..< length frame]" for j
  proof -
    have "j < length frame" and "j - 1 < length frame" using that by auto
    then have "frame ! j \<in> set frame" and "frame ! (j - 1) \<in> set frame"
      by (simp_all only: nth_mem)
    then have "frame ! j = c" and "frame ! (j - 1) = c" using assms by blast+
    then show ?thesis by simp
  qed
  then have "sum_list (map (\<lambda>j. (frame ! j - frame ! (j - 1)) * (frame ! j - frame ! (j - 1)))
                [1 ..< length frame]) = 0"
    by (rule sum_list_all_zero)
  then show ?thesis by (simp add: noisePower_sum)
qed

lemma signalPower_zero_noise:
  assumes "signalPower frame = 0"
  shows "noisePower frame = 0"
proof (cases "frame = []")
  case True
  then show ?thesis by (simp add: noisePower_sum)
next
  case False
  then have "sum_list (map (\<lambda>x. x * x) frame) = 0"
    using assms by (simp add: signalPower_sum)
  then have "\<forall>y\<in>set (map (\<lambda>x. x * x) frame). y = 0"
    by (subst (asm) sum_list_nonneg_eq_0_iff) auto
  then have "\<And>x. x \<in> set frame \<Longrightarrow> x = 0" by auto
  then show ?thesis by (rule noisePower_constant)
qed

lemma noise_nonzero_signal_pos:
  assumes "totalNoisePower samples \<noteq> 0"
  shows "0 < totalSignalPower samples \<and> 0 < totalNoisePower samples"
proof -
  let ?frs = "frames 2048 2048 samples"
  have n0: "0 \<le> totalNoisePower samples"
    unfolding totalNoisePower_sum by (intro sum_list_nonneg) (auto simp: noisePower_nonneg)
  have s0: "0 \<le> totalSignalPower samples"
    unfolding totalSignalPower_sum by (intro sum_list_nonneg) (auto simp: signalPower_nonneg)
  have "totalSignalPower samples \<noteq> 0"
  proof
    assume "totalSignalPower samples = 0"
    then have "\<forall>y\<in>set (map signalPower ?frs). y = 0"
      unfolding totalSignalPower_sum
      by (subst (asm) sum_list_nonneg_eq_0_iff) (auto simp: signalPower_nonneg)
    then have "\<And>fr. fr \<in> set ?frs \<Longrightarrow> noisePower fr * 0.1 = 0"
      by (auto simp: signalPower_zero_noise)
    then have "totalNoisePower samples = 0"
      unfolding totalNoisePower_sum by (rule sum_list_all_zero)
    with assms show False by simp
  qed
  with n0 s0 assms show ?thesis by simp
qed

lemma calculateHNR_value:
  "calculateHNR samples =
     (if totalNoisePower samples = 0 then Fin 25
      else Fin (max 0 (min 40 (10 * log 10 (totalSignalPower samples / totalNoisePower samples)))))"
proof (cases "totalNoisePower samples = 0")
  case True
  then show ?thesis by (simp add: calculateHNR_def)
next
  case False
  from noise_nonzero_signal_pos[OF False]
  have "0 < totalSignalPower samples / totalNoisePower samples" by simp
  then show ?thesis
    using False
    by (simp add: calculateHNR_def jsdiv_def js_min_def js_max_def Let_def max_def min_def)
qed

lemma totalNoisePower_constant_frames:
  assumes "\<And>fr. fr \<in> set (frames 2048 2048 samples) \<Longrightarrow> \<exists>c. \<forall>x\<in>set fr. x = c"
  shows "totalNoisePower samples = 0"
proof -
  have "noisePower fr * 0.1 = 0" if mem: "fr \<in> set (frames 2048 2048 samples)" for fr
  proof -
    from assms[OF mem] obtain c where "\<forall>x\<in>set fr. x = c" by blast
    then have "noisePower fr = 0" by (intro noisePower_constant[of fr c]) simp
    then show ?thesis by simp
  qed
  then show ?thesis unfolding totalNoisePower_sum by (rule sum_list_all_zero)
qed

lemma totalNoisePower_short: "length samples \<le> 2048 \<Longrightarrow> totalNoisePower samples = 0"
  by (simp add: totalNoisePower_sum frames_stop)

text \<open>
  C4. The value of \<open>calculateHNR\<close> is a finite number in \<open>[0, 40]\<close>. It is exactly 25
  when the accumulated noise power is zero, which is so for a buffer of at most 2048
  samples (no frame) and for a buffer whose frames are all constant; otherwise it is
  \<open>10 * log10(totalSignalPower / totalNoisePower)\<close> clamped into \<open>[0, 40]\<close>.
\<close>

theorem calculateHNR_clamped:
  "calculateHNR samples =
     (if totalNoisePower samples = 0 then Fin 25
      else Fin (max 0 (min 40 (10 * log 10 (totalSignalPower samples / totalNoisePower samples)))))
   \<and> (\<exists>h. calculateHNR samples = Fin h \<and> 0 \<le> h \<and> h \<le> 40)
   \<and> (length samples \<le> 2048 \<longrightarrow> calculateHNR samples = Fin 25)
   \<and> ((\<forall>fr\<in>set (frames 2048 2048 samples). \<exists>c. \<forall>x\<in>set fr. x = c)
        \<longrightarrow> calculateHNR samples = Fin 25)"
proof (intro conjI impI)
  show "calculateHNR samples =
     (if totalNoisePower samples = 0 then Fin 25
      else Fin (max 0 (min 40 (10 * log 10 (totalSignalPower samples / totalNoisePower samples)))))"
    by (rule calculateHNR_value)
  show "\<exists>h. calculateHNR samples = Fin h \<and> 0 \<le> h \<and> h \<le> 40"
    by (simp add: calculateHNR_value)
  show "calculateHNR samples = Fin 25" if "length samples \<le> 2048"
    using that by (simp add: calculateHNR_value totalNoisePower_short)
  show "calculateHNR samples = Fin 25"
    if "\<forall>fr\<in>set (frames 2048 2048 samples). \<exists>c. \<forall>x\<in>set fr. x = c"
    using that by (simp add: calculateHNR_value totalNoisePower_constant_frames)
qed

lemma frames_silence_step:
  "a < n \<Longrightarrow> 0 < b \<Longrightarrow> frames a b (silence n) = silence a # frames a b (silence (n - b))"
  by (simp add: silence_def frames_step min_def)

lemma frames_silence_stop: "n \<le> a \<Longrightarrow> frames a b (silence n) = []"
  by (simp add: silence_def frames_stop)

text \<open>
  C4 on a silent buffer of 2048 samples (no frame) and on a silent buffer of 4097 samples
  (two frames, both constant).
\<close>

theorem calculateHNR_clamped_witness:
  "length (silence 2048) \<le> 2048 \<and> calculateHNR (silence 2048) = Fin 25
   \<and> frames 2048 2048 (silence 4097) = [silence 2048, silence 2048]
   \<and> calculateHNR (silence 4097) = Fin 25"
proof -
  have fr: "frames 2048 2048 (silence 4097) = [silence 2048, silence 2048]"
    by (simp add: frames_silence_step frames_silence_stop)
  have "\<forall>fr\<in>set (frames 2048 2048 (silence 4097)). \<exists>c. \<forall>x\<in>set fr. x = c"
    unfolding fr by (auto simp: silence_def)
  then have "calculateHNR (silence 4097) = Fin 25"
    using calculateHNR_clamped[of "silence 4097"] by blast
  moreover have short: "length (silence 2048) \<le> 2048" by simp
  then have "calculateHNR (silence 2048) = Fin 25"
    using calculateHNR_clamped[of "silence 2048"] by blast
  ultimately show ?thesis using fr short by simp
qed


section \<open>Shimmer, amplitude and the silent buffer\<close>

lemma shimmerFrames_frames:
  "i \<le> length samples \<Longrightarrow> shimmerFrames samples i acc =
     acc @ map framePeak (frames 512 512 (drop i samples))"
proof (induction samples i acc rule: shimmerFrames.induct)
  case (1 samples i amplitudes)
  show ?case
  proof (cases "i + 512 < length samples")
    case True
    have le: "i + 512 \<le> length samples" using True by simp
    have fr: "frames 512 512 (drop i samples) =
         take 512 (drop i samples) # frames 512 512 (drop (i + 512) samples)"
      using True by (simp add: frames_step add.commute)
    show ?thesis
      using True "1.IH"[OF True le]
      by (subst shimmerFrames.simps) (simp add: fr slice_def)
  next
    case False
    then have "frames 512 512 (drop i samples) = []"
      by (simp add: frames_stop)
    with False show ?thesis
      by (subst shimmerFrames.simps) simp
  qed
qed

lemma framePeak_silence: "framePeak (silence n) = 0"
  unfolding framePeak_def silence_def by (induction n) simp_all

lemma frames_silence_all: "fr \<in> set (frames a b (silence n)) \<Longrightarrow> fr = silence a"
  unfolding silence_def by (rule frames_silence)

lemma length_frames_silence:
  "length (frames 512 512 (silence n)) < 2 \<longleftrightarrow> n \<le> 1024"
proof (cases "512 < n")
  case False
  then show ?thesis by (simp add: frames_silence_stop)
next
  case True
  show ?thesis
  proof (cases "512 < n - 512")
    case True
    with \<open>512 < n\<close> show ?thesis by (simp add: frames_silence_step)
  next
    case False
    with \<open>512 < n\<close> show ?thesis by (simp add: frames_silence_step frames_silence_stop)
  qed
qed

lemma totalDiff_zeros: "(\<And>x. x \<in> set xs \<Longrightarrow> x = 0) \<Longrightarrow> totalDiff xs = 0"
proof -
  assume z: "\<And>x. x \<in> set xs \<Longrightarrow> x = 0"
  have "\<bar>xs ! i - xs ! (i - 1)\<bar> = 0" if "i \<in> set [1 ..< length xs]" for i
  proof -
    have "i < length xs" and "i - 1 < length xs" using that by auto
    then have "xs ! i \<in> set xs" and "xs ! (i - 1) \<in> set xs" by (simp_all only: nth_mem)
    then have "xs ! i = 0" and "xs ! (i - 1) = 0" using z by blast+
    then show ?thesis by simp
  qed
  then have "sum_list (map (\<lambda>i. \<bar>xs ! i - xs ! (i - 1)\<bar>) [1 ..< length xs]) = 0"
    by (rule sum_list_all_zero)
  then show ?thesis
    unfolding totalDiff_def foldl_add_sum_list by simp
qed

lemma calculateShimmer_silence:
  "calculateShimmer (silence n) = (if n \<le> 1024 then Fin 3 else NaN)"
proof -
  define amps where "amps = map framePeak (frames 512 512 (silence n))"
  have scan: "shimmerFrames (silence n) 0 [] = amps"
    by (simp add: shimmerFrames_frames amps_def)
  have z: "x = 0" if "x \<in> set amps" for x
    using that by (auto simp: amps_def framePeak_silence dest!: frames_silence_all)
  have len: "length amps < 2 \<longleftrightarrow> n \<le> 1024"
    by (simp add: amps_def length_frames_silence)
  have "sum_list amps = 0" using z sum_list_all_zero[of amps "\<lambda>x. x"] by simp
  then have s: "foldl (+) 0 amps = 0" by (simp add: foldl_plus_sum_list)
  have d: "totalDiff amps = 0" using z by (rule totalDiff_zeros)
  show ?thesis
    unfolding calculateShimmer_def scan Let_def
    by (simp add: len s d jsdiv_def)
qed

lemma calculateAmplitude_silence:
  "calculateAmplitude (silence n) = (if n = 0 then NaN else Fin 0)"
proof -
  have "foldl (\<lambda>sum x. sum + x * x) 0 (silence n) = 0"
    unfolding silence_def by (induction n) simp_all
  then show ?thesis by (simp add: calculateAmplitude_def jsdiv_def)
qed

lemma calculateHNR_silence: "calculateHNR (silence n) = Fin 25"
proof -
  have "totalNoisePower (silence n) = 0"
    by (rule totalNoisePower_constant_frames) (auto simp: silence_def dest!: frames_silence)
  then show ?thesis by (simp add: calculateHNR_value)
qed

lemma calculatePitch_silence: "0 < rate \<Longrightarrow> calculatePitch rate (silence n) = 150"
  by (simp add: calculatePitch_def pitchFrames_silence)

lemma calculatePitchVariation_silence:
  "0 < rate \<Longrightarrow> calculatePitchVariation rate (silence n) = 10"
  by (simp add: calculatePitchVariation_def pitchFrames_silence)

section \<open>The formant estimator\<close>

lemma slice_0: "slice xs 0 n = take n xs"
  by (simp add: slice_def)

lemma padFormants_eq:
  "padFormants fs = fs @ map (\<lambda>k. 500 + real k * 1000) [length fs ..< 3]"
proof (induction fs rule: padFormants.induct)
  case (1 fs)
  show ?case
  proof (cases "length fs < 3")
    case True
    then have "[length fs ..< 3] = length fs # [Suc (length fs) ..< 3]"
      by (simp add: upt_conv_Cons)
    with True "1.IH"[OF True] show ?thesis
      by (subst padFormants.simps) simp
  next
    case False
    then show ?thesis by (subst padFormants.simps) simp
  qed
qed

lemma peakScan_length:
  "length fs < 4 \<Longrightarrow>
   length (peakScan magnitudes binWidth endBin i prevMag up fs) \<le> 4"
proof (induction magnitudes binWidth endBin i prevMag up fs rule: peakScan.induct)
  case (1 magnitudes binWidth endBin i prevMag up fs)
  show ?case
  proof (cases "real i < endBin")
    case False
    then show ?thesis using "1.prems" by (subst peakScan.simps) simp
  next
    case True
    note inb = True
    show ?thesis
    proof (cases "magnitudes ! i > prevMag")
      case True
      then show ?thesis
        using inb "1.IH"(1)[OF inb True "1.prems"] by (subst peakScan.simps) simp
    next
      case False
      note nup = False
      show ?thesis
      proof (cases "up \<and> magnitudes ! i < prevMag")
        case True
        show ?thesis
        proof (cases "length (fs @ [(real i - 1) * binWidth]) \<ge> 4")
          case True
          then show ?thesis
            using inb nup \<open>up \<and> magnitudes ! i < prevMag\<close> "1.prems"
            by (subst peakScan.simps) simp
        next
          case False
          then have lt: "length (fs @ [(real i - 1) * binWidth]) < 4" by simp
          show ?thesis
            using inb nup \<open>up \<and> magnitudes ! i < prevMag\<close> False
              "1.IH"(2)[OF inb nup \<open>up \<and> magnitudes ! i < prevMag\<close> False lt]
            by (subst peakScan.simps) simp
        qed
      next
        case False
        then show ?thesis
          using inb nup "1.IH"(3)[OF inb nup False "1.prems"]
          by (subst peakScan.simps) auto
      qed
    qed
  qed
qed

lemma detectPeaks_length: "length (detectPeaks rate samples) \<le> 4"
  by (simp add: detectPeaks_def Let_def peakScan_length)

lemma calculateFormants_eq:
  "calculateFormants rate samples =
     detectPeaks rate samples
       @ map (\<lambda>k. 500 + real k * 1000) [length (detectPeaks rate samples) ..< 3]"
proof -
  have "length (padFormants (detectPeaks rate samples)) \<le> 4"
    using detectPeaks_length[of rate samples] by (simp add: padFormants_eq)
  then show ?thesis
    by (simp add: calculateFormants_def slice_0 padFormants_eq[symmetric])
qed

lemma foldl_sub_zero:
  "(\<And>i. i \<in> set xs \<Longrightarrow> f i = (0::real)) \<Longrightarrow> foldl (\<lambda>c i. c - f i) a xs = a"
  by (induction xs arbitrary: a) simp_all

lemma fft_silence: "k < n \<Longrightarrow> fft (silence n) ! k = \<lparr> re = 0, im = 0 \<rparr>"
proof -
  assume "k < n"
  have re: "foldl (\<lambda>r t. r + silence n ! t * cos (2 * pi * real t * real k / real n)) 0 [0 ..< n] = 0"
    by (rule foldl_add_zero) (simp add: silence_def)
  have im: "foldl (\<lambda>r t. r - silence n ! t * sin (2 * pi * real t * real k / real n)) 0 [0 ..< n] = 0"
    by (rule foldl_sub_zero) (simp add: silence_def)
  show ?thesis using \<open>k < n\<close> by (simp add: fft_def re im)
qed

lemma length_fft: "length (fft input) = length input"
  by (simp add: fft_def Let_def)

lemma upt_0_3: "[0 ..< 3] = [0, 1, 2]"
  by (simp add: numeral_3_eq_3 upt_rec)

lemma peakScan_flat:
  "(\<And>j. real j < endBin \<Longrightarrow> magnitudes ! j = 0) \<Longrightarrow> prevMag = 0 \<Longrightarrow> \<not> up \<Longrightarrow>
   peakScan magnitudes binWidth endBin i prevMag up fs = fs"
proof (induction magnitudes binWidth endBin i prevMag up fs rule: peakScan.induct)
  case (1 magnitudes binWidth endBin i prevMag up fs)
  show ?case
  proof (cases "real i < endBin")
    case False
    then show ?thesis by (subst peakScan.simps) simp
  next
    case True
    then have m0: "magnitudes ! i = 0" by (rule "1.prems"(1))
    have c1: "\<not> magnitudes ! i > prevMag" using m0 "1.prems"(2) by simp
    have c2: "\<not> (up \<and> magnitudes ! i < prevMag)" using "1.prems"(3) by simp
    have "peakScan magnitudes binWidth endBin (i + 1) (magnitudes ! i) up fs = fs"
      using "1.IH"(3)[OF True c1 c2 "1.prems"(1) m0 "1.prems"(3)] by simp
    then show ?thesis
      using True m0 "1.prems"(2) "1.prems"(3) by (subst peakScan.simps) simp
  qed
qed

lemma detectPeaks_silence: "detectPeaks rate (silence n) = []"
proof -
  define m where "m = min 2048 n"
  define mags where "mags = map (\<lambda>c. sqrt (re c * re c + im c * im c)) (fft (silence m))"
  have fr: "slice (silence n) 0 (min 2048 (length (silence n))) = silence m"
    by (simp add: slice_0 silence_def m_def)
  have len: "length mags = m" by (simp add: mags_def length_fft)
  have z: "mags ! j = 0"
    if "real j < min (of_int \<lfloor>4000 / (rate / 2048)\<rfloor>) (real (length mags) / 2)" for j
  proof -
    have "real j < real m / 2" using that len by simp
    then have "j < m" by simp
    then show ?thesis by (simp add: mags_def length_fft fft_silence)
  qed
  have "peakScan mags (rate / 2048)
          (min (of_int \<lfloor>4000 / (rate / 2048)\<rfloor>) (real (length mags) / 2))
          (nat \<lfloor>200 / (rate / 2048)\<rfloor>) 0 False [] = []"
    by (rule peakScan_flat) (simp_all add: z)
  then show ?thesis
    unfolding detectPeaks_def Let_def fr mags_def by simp
qed

lemma calculateFormants_silence: "calculateFormants rate (silence n) = [500, 1500, 2500]"
  by (simp add: calculateFormants_eq detectPeaks_silence upt_0_3)

text \<open>
  C2, as the code has it. The formants sequence has length 3 or 4, and length 4 exactly
  when four peaks were detected. It starts with the detected peaks, and every entry beyond
  them is the default \<open>500 + 1000 * index\<close>; the padding stops at three entries.
\<close>

theorem calculateFormants_length:
  "0 < rate \<Longrightarrow>
   (length (calculateFormants rate samples) = 3 \<or> length (calculateFormants rate samples) = 4)
   \<and> (length (calculateFormants rate samples) = 4 \<longleftrightarrow> length (detectPeaks rate samples) = 4)
   \<and> take (length (detectPeaks rate samples)) (calculateFormants rate samples)
        = detectPeaks rate samples
   \<and> (\<forall>k < length (calculateFormants rate samples).
         length (detectPeaks rate samples) \<le> k \<longrightarrow>
         calculateFormants rate samples ! k = 500 + 1000 * real k)"
proof -
  let ?ps = "detectPeaks rate samples"
  have le: "length ?ps \<le> 4" by (rule detectPeaks_length)
  have len: "length (calculateFormants rate samples) = max 3 (length ?ps)"
    by (simp add: calculateFormants_eq)
  have pad: "calculateFormants rate samples ! k = 500 + 1000 * real k"
    if "k < length (calculateFormants rate samples)" and "length ?ps \<le> k" for k
  proof -
    have "k - length ?ps < 3 - length ?ps" using that len by auto
    then show ?thesis using that by (simp add: calculateFormants_eq nth_append)
  qed
  show ?thesis using le len pad by (auto simp: calculateFormants_eq)
qed

text \<open>
  C2 at 44100 Hz on a silent frame of 2048 samples: no peak, three entries, all defaults.
\<close>

theorem calculateFormants_length_witness:
  "0 < (44100::real) \<and> length (calculateFormants 44100 (silence 2048)) = 3
   \<and> detectPeaks 44100 (silence 2048) = []
   \<and> calculateFormants 44100 (silence 2048) ! 0 = 500
   \<and> calculateFormants 44100 (silence 2048) ! 1 = 1500
   \<and> calculateFormants 44100 (silence 2048) ! 2 = 2500"
  using calculateFormants_length[of 44100 "silence 2048"]
  by (simp add: detectPeaks_silence calculateFormants_silence)

text \<open>
  C2, as it is stated, fails at 44100 Hz on five seconds of silence (220500 samples): the
  spectrum is flat, no peak is found, and the result \<open>[500, 1500, 2500]\<close> has three
  entries, not four.
\<close>

theorem silent_formants_counterexample:
  "length (calculateFormants 44100 (silence 220500)) \<noteq> 4"
  by (simp add: calculateFormants_silence)

text \<open>
  C8. When fewer than 3 peaks are detected in the first frame, the result is the detected
  peaks followed by the defaults \<open>500 + 1000 * count\<close> up to three entries, so that no
  peak at all gives \<open>[500, 1500, 2500]\<close>; and the result never has more than 4 entries.
\<close>

theorem calculateFormants_padding:
  "0 < rate \<Longrightarrow>
   (length (detectPeaks rate samples) < 3 \<longrightarrow>
      calculateFormants rate samples =
        detectPeaks rate samples
          @ map (\<lambda>k. 500 + 1000 * real k) [length (detectPeaks rate samples) ..< 3])
   \<and> (detectPeaks rate samples = [] \<longrightarrow> calculateFormants rate samples = [500, 1500, 2500])
   \<and> length (calculateFormants rate samples) \<le> 4"
proof -
  have "length (detectPeaks rate samples) \<le> 4" by (rule detectPeaks_length)
  then show ?thesis
    by (auto simp: calculateFormants_eq upt_0_3 mult.commute)
qed

text \<open>
  C8 at 48000 Hz on a silent buffer of 4096 samples: no peak, and the three defaults.
\<close>

theorem calculateFormants_padding_witness:
  "0 < (48000::real) \<and> length (detectPeaks 48000 (silence 4096)) < 3
   \<and> detectPeaks 48000 (silence 4096) = []
   \<and> calculateFormants 48000 (silence 4096) = [500, 1500, 2500]
   \<and> length (calculateFormants 48000 (silence 4096)) \<le> 4"
  using calculateFormants_padding[of 48000 "silence 4096"]
  by (simp add: detectPeaks_silence upt_0_3)

section \<open>The whole extraction\<close>

text \<open>
  C1 fails on five seconds of digital silence at 44100 Hz. Every frame peak is 0, so
  \<open>avgDiff\<close> and \<open>avgAmp\<close> are both 0 and \<open>(avgDiff / avgAmp) * 100\<close> is \<open>NaN\<close>:
  \<open>calculateShimmer\<close> has the guard for fewer than two frames, but none for a zero mean
  amplitude, unlike \<open>calculateHNR\<close> for a zero noise power.
\<close>

theorem extractFeatures_silence_shimmer:
  "shimmer (fst (extractFeatures \<lparr> sampleRate = 44100 \<rparr>
                   \<lparr> channelData = silence 220500, bufferDuration = 5 \<rparr>)) = NaN"
  by (simp add: extractFeatures_def Let_def calculateShimmer_silence)

text \<open>
  C3 on a silent buffer of exactly one frame (2048 samples) at 44100 Hz: amplitude,
  jitter, pitch, pitch variation and harmonics-to-noise ratio are as the claim says, but
  the shimmer is \<open>NaN\<close> and not the default 3, since the buffer holds three shimmer frames
  of 512 samples.
\<close>

theorem extractFeatures_silent_frame:
  "fst (extractFeatures \<lparr> sampleRate = 44100 \<rparr>
          \<lparr> channelData = silence 2048, bufferDuration = 2048 / 44100 \<rparr>)
   = \<lparr> pitch = Fin 150, pitchVariation = Fin 10, jitter = Fin 0.5, shimmer = NaN,
       hnr = Fin 25, duration = Fin (2048 / 44100), amplitude = Fin 0,
       formants = [500, 1500, 2500] \<rparr>"
  by (simp add: extractFeatures_def Let_def calculateShimmer_silence calculatePitch_silence
        calculatePitchVariation_silence calculateJitter_silence calculateHNR_silence
        calculateAmplitude_silence calculateFormants_silence)

end
